theory Spec2Isabelle
  imports Main "HOL-Library.Sublist" "HOL-Library.Multiset"
    "HOL-Library.Char_ord" "HOL-Library.List_Lexorder"
begin

section \<open>Strings\<close>

text \<open>
  Python strings are modelled as \<^typ>\<open>string\<close>: each character is a code point below 256.
  On that range \<^verbatim>\<open>str.lower\<close> maps \<^verbatim>\<open>A-Z\<close> and the upper-case letters of Latin-1
  (192 to 222 except the multiplication sign 215) to the code point 32 higher and leaves every
  other character alone. \<^verbatim>\<open>str.upper\<close> is only ever applied to a match of
  \<^verbatim>\<open>GSE_REGEX\<close>, which consists of ASCII letters and digits; it is modelled on ASCII.
  Python compares strings lexicographically by code point, which is the order that
  the library theories \<open>Char_ord\<close> and \<open>List_Lexorder\<close> give to
  \<^typ>\<open>string\<close>.
\<close>

definition lower_char :: "char \<Rightarrow> char" where
  "lower_char c =
     (let n = (of_char c :: nat)
      in if (65 \<le> n \<and> n \<le> 90) \<or> (192 \<le> n \<and> n \<le> 222 \<and> n \<noteq> 215)
         then char_of (n + 32) else c)"

definition upper_char :: "char \<Rightarrow> char" where
  "upper_char c =
     (let n = (of_char c :: nat)
      in if 97 \<le> n \<and> n \<le> 122 then char_of (n - 32) else c)"

definition lower :: "string \<Rightarrow> string" where
  "lower s = map lower_char s"

definition upper :: "string \<Rightarrow> string" where
  "upper s = map upper_char s"

text \<open>\<^verbatim>\<open>\d\<close> on code points below 256: the ten ASCII digits.\<close>

definition is_digit :: "char \<Rightarrow> bool" where
  "is_digit c \<longleftrightarrow> c \<in> set ''0123456789''"

text \<open>A literal letter of a pattern compiled with \<^verbatim>\<open>re.IGNORECASE\<close>.\<close>

definition ieq :: "char \<Rightarrow> char \<Rightarrow> bool" where
  "ieq c l \<longleftrightarrow> c = l \<or> c = lower_char l"

text \<open>\<^verbatim>\<open>needle in hay\<close> for Python strings.\<close>

fun str_contains :: "string \<Rightarrow> string \<Rightarrow> bool" where
  "str_contains [] needle = (needle = [])"
| "str_contains (c # cs) needle = (prefix needle (c # cs) \<or> str_contains cs needle)"

text \<open>\<^verbatim>\<open>s.endswith(suffix)\<close>.\<close>

definition endswith :: "string \<Rightarrow> string \<Rightarrow> bool" where
  "endswith s sfx \<longleftrightarrow> length sfx \<le> length s \<and> drop (length s - length sfx) s = sfx"

section \<open>Filename parsers\<close>

text \<open>
  \<^verbatim>\<open>GSE_REGEX = re.compile(r"(GSE\d+)", re.IGNORECASE)\<close>.
  \<open>GSE_REGEX_match\<close> is the pattern anchored at the head of the string: three letters, then
  the longest run of digits, which must not be empty (\<^verbatim>\<open>+\<close> is greedy).
  \<open>GSE_REGEX_search\<close> is \<^verbatim>\<open>GSE_REGEX.search\<close>: the match at the leftmost position
  that has one; its result is group 1, the whole match.
\<close>

fun GSE_REGEX_match :: "string \<Rightarrow> string option" where
  "GSE_REGEX_match (g # s # e # rest) =
     (if ieq g CHR ''G'' \<and> ieq s CHR ''S'' \<and> ieq e CHR ''E'' \<and> takeWhile is_digit rest \<noteq> []
      then Some (g # s # e # takeWhile is_digit rest) else None)"
| "GSE_REGEX_match _ = None"

fun GSE_REGEX_search :: "string \<Rightarrow> string option" where
  "GSE_REGEX_search [] = None"
| "GSE_REGEX_search (c # cs) =
     (case GSE_REGEX_match (c # cs) of
        Some m \<Rightarrow> Some m
      | None \<Rightarrow> GSE_REGEX_search cs)"

definition parse_gse_from_filename :: "string \<Rightarrow> string" where
  "parse_gse_from_filename fname =
     (case GSE_REGEX_search fname of
        Some m \<Rightarrow> upper m
      | None \<Rightarrow> ''UNKNOWN'')"

definition parse_cultivar_from_filename :: "string \<Rightarrow> string option" where
  "parse_cultivar_from_filename fname =
     (let lower = lower fname
      in if str_contains lower ''mueller'' then Some ''mueller''
         else if str_contains lower ''regent'' then Some ''regent''
         else None)"

text \<open>
  The accession pattern in the words of the specification: the substring of \<open>fname\<close> of
  length \<open>n\<close> at position \<open>i\<close> reads "GSE", in either case, followed by one or more digits.
\<close>

definition gse_token_at :: "string \<Rightarrow> nat \<Rightarrow> nat \<Rightarrow> bool" where
  "gse_token_at fname i n \<longleftrightarrow>
     4 \<le> n \<and> i + n \<le> length fname \<and>
     upper (take 3 (drop i fname)) = ''GSE'' \<and>
     list_all is_digit (take (n - 3) (drop (i + 3) fname))"

text \<open>
  A keyword occurs in \<open>fname\<close> case-insensitively: some contiguous part of \<open>fname\<close> becomes
  the keyword when lower-cased.
\<close>

definition occurs_ci :: "string \<Rightarrow> string \<Rightarrow> bool" where
  "occurs_ci kw fname \<longleftrightarrow> (\<exists>ps w ss. fname = ps @ w @ ss \<and> lower w = kw)"

text \<open>The pattern anchored at the head of \<open>t\<close>, with a match of length \<open>n\<close>.\<close>

definition token_here :: "string \<Rightarrow> nat \<Rightarrow> bool" where
  "token_here t n \<longleftrightarrow> 4 \<le> n \<and> n \<le> length t \<and> upper (take 3 t) = ''GSE'' \<and>
     list_all is_digit (take (n - 3) (drop 3 t))"

section \<open>Errors\<close>

text \<open>
  Every exception that can leave the loader or the dataset is a value. The first four are
  raised by the loader itself; the specification calls them by the names used here.
  \<^item> \<open>DirectoryNotFoundError\<close>: \<^verbatim>\<open>FileNotFoundError("Subset dir not found: ...")\<close>;
  \<^item> \<open>EmptyCorpusError\<close>: \<^verbatim>\<open>RuntimeError("No expression txt files in ...")\<close>;
  \<^item> \<open>NoCommonGenesError\<close>: \<^verbatim>\<open>RuntimeError("No intersecting genes across datasets.")\<close>;
  \<^item> \<open>MalformedInputError\<close>: \<^verbatim>\<open>ValueError("File has no sample columns: ...")\<close>;
  \<^item> \<open>PandasError\<close>: an exception raised inside pandas (a file that \<^verbatim>\<open>read_csv\<close>
    cannot parse, a column label that is not unique where one column is needed);
  \<^item> \<open>KeyError\<close>, \<open>IndexError\<close>: a missing label, a list index out of range.
\<close>

datatype error =
    DirectoryNotFoundError
  | EmptyCorpusError
  | NoCommonGenesError
  | MalformedInputError
  | PandasError
  | KeyError
  | IndexError

section \<open>Data frames\<close>

text \<open>
  A pandas \<^verbatim>\<open>DataFrame\<close> with an index: the column labels, and the rows in order, each with
  its index label and one cell per column. The per-file matrices hold integer counts
  (\<^typ>\<open>int\<close> cells); the merged matrix may have missing cells (\<^typ>\<open>int option\<close>); the
  metadata table holds strings, the cultivar possibly missing (\<^typ>\<open>string option\<close>).
\<close>

record 'v frame =
  columns :: "string list"
  rows :: "(string \<times> 'v list) list"

definition index :: "'v frame \<Rightarrow> string list" where
  "index df = map fst (rows df)"

text \<open>
  The frame \<^verbatim>\<open>pd.read_csv(fpath, sep="\t", header=0)\<close> returns, before an index is
  set: the whole header, and each row as its first cell (the gene identifier) and the cells
  of the remaining columns. \<^verbatim>\<open>read_csv\<close> makes repeated header names distinct, and every
  row has one cell per column.
\<close>

record raw_frame =
  raw_columns :: "string list"
  raw_rows :: "(string \<times> int list) list"


text \<open>
  \<^verbatim>\<open>df.loc[labels]\<close> with a list of labels: for each label in turn, every row that carries
  it, in the order of the frame; \<^verbatim>\<open>KeyError\<close> when a label is not in the index. On a unique
  index this is one row per label; on an index with repeated labels the rows of a label
  are all returned, once for each time the label is asked for.
\<close>

definition loc :: "'v frame \<Rightarrow> string list \<Rightarrow> error + 'v frame" where
  "loc df labels =
     (if list_ex (\<lambda>l. l \<notin> set (index df)) labels then Inl KeyError
      else Inr (df\<lparr>rows := concat (map (\<lambda>l. filter (\<lambda>r. fst r = l) (rows df)) labels)\<rparr>))"

text \<open>
  \<^verbatim>\<open>df.groupby(df.index).sum()\<close>: one row per distinct index label, the labels sorted
  ascending, each cell the sum of the group's cells in that column.
\<close>

definition sum_rows :: "nat \<Rightarrow> int list list \<Rightarrow> int list" where
  "sum_rows n rs = foldl (\<lambda>acc r. map2 (+) acc r) (replicate n 0) rs"

definition groupby_sum :: "int frame \<Rightarrow> int frame" where
  "groupby_sum df =
     df\<lparr>rows := map (\<lambda>g. (g, sum_rows (length (columns df))
                                (map snd (filter (\<lambda>r. fst r = g) (rows df)))))
                    (sort (remdups (index df)))\<rparr>"

text \<open>
  The union of several indexes in the order of first appearance, as \<^verbatim>\<open>pd.concat\<close> builds
  the row index of an outer join.
\<close>

fun unique_first :: "'a list \<Rightarrow> 'a list" where
  "unique_first [] = []"
| "unique_first (x # xs) = x # filter (\<lambda>y. y \<noteq> x) (unique_first xs)"

text \<open>
  \<^verbatim>\<open>pd.concat(per_file_dfs, axis=1)\<close> on frames whose indexes are unique: the columns of all
  frames side by side, in order; a row for every label of the union of the indexes; a missing
  cell where a frame has no row for the label.
\<close>

definition segment :: "int frame \<Rightarrow> string \<Rightarrow> int option list" where
  "segment df g =
     (case map_of (rows df) g of
        Some vs \<Rightarrow> map Some vs
      | None \<Rightarrow> replicate (length (columns df)) None)"

definition concat_axis1 :: "int frame list \<Rightarrow> int option frame" where
  "concat_axis1 dfs =
     \<lparr>columns = concat (map columns dfs),
      rows = map (\<lambda>g. (g, concat (map (\<lambda>df. segment df g) dfs)))
                 (unique_first (concat (map index dfs)))\<rparr>"

section \<open>The file system\<close>

text \<open>
  What the loader asks of the operating system and of \<^verbatim>\<open>read_csv\<close>, by path:
  whether a path is a directory, the entries of a directory in the order in which the
  system enumerates them, and the frame read from a file (nothing when \<^verbatim>\<open>read_csv\<close>
  raises). \<open>data_root\<close> is the absolute path that \<^verbatim>\<open>os.path.abspath\<close> returned.
\<close>

record filesystem =
  isdir :: "string \<Rightarrow> bool"
  listdir :: "string \<Rightarrow> string list"
  read_csv :: "string \<Rightarrow> raw_frame option"

text \<open>\<^verbatim>\<open>os.path.join\<close> of two components and \<^verbatim>\<open>os.path.basename\<close>, on POSIX paths.\<close>

definition path_join :: "string \<Rightarrow> string \<Rightarrow> string" where
  "path_join a b =
     (if b \<noteq> [] \<and> hd b = CHR ''/'' then b
      else if a = [] \<or> last a = CHR ''/'' then a @ b
      else a @ ''/'' @ b)"

definition basename :: "string \<Rightarrow> string" where
  "basename p = rev (takeWhile (\<lambda>c. c \<noteq> CHR ''/'') (rev p))"

section \<open>The loader\<close>

record VitisSampleInfo =
  sample_id :: string
  original_name :: string
  tissue :: string
  condition :: string
  gse_accession :: string
  cultivar :: "string option"
  file_path :: string

text \<open>The f-string \<^verbatim>\<open>f"{tissue}|{gse}|{original_name}"\<close>.\<close>

definition make_sample_id :: "string \<Rightarrow> string \<Rightarrow> string \<Rightarrow> string" where
  "make_sample_id tis gse original = tis @ ''|'' @ gse @ ''|'' @ original"

text \<open>
  \<^verbatim>\<open>_load_single_file\<close>. The first column is renamed to "Gene" in both branches of the
  source, and made the index; \<^verbatim>\<open>set_index("Gene")\<close> raises inside pandas when another
  column is already called "Gene", since the label then names two columns. Rows are grouped
  and summed only when the index is not unique. Every remaining column gives one
  \<open>VitisSampleInfo\<close> and is renamed to its sample identifier.
\<close>

definition load_single_file ::
  "filesystem \<Rightarrow> string \<Rightarrow> string \<Rightarrow> string \<Rightarrow> error + (int frame \<times> VitisSampleInfo list)" where
  "load_single_file fs fpath tis cond =
     (case read_csv fs fpath of
        None \<Rightarrow> Inl PandasError
      | Some t \<Rightarrow>
          if length (raw_columns t) < 2 then Inl MalformedInputError
          else if ''Gene'' \<in> set (tl (raw_columns t)) then Inl PandasError
          else
            let df = \<lparr>columns = tl (raw_columns t), rows = raw_rows t\<rparr>;
                df = (if \<not> distinct (index df) then groupby_sum df else df);
                gse = parse_gse_from_filename (basename fpath);
                cultivar = parse_cultivar_from_filename (basename fpath);
                sample_infos =
                  map (\<lambda>col. \<lparr>sample_id = make_sample_id tis gse col,
                              original_name = col,
                              tissue = tis,
                              condition = cond,
                              gse_accession = gse,
                              cultivar = cultivar,
                              file_path = fpath\<rparr>) (columns df);
                df = df\<lparr>columns := map (make_sample_id tis gse) (columns df)\<rparr>
            in Inr (df, sample_infos))"

text \<open>
  The inner loop of \<^verbatim>\<open>_load_all\<close>, over the sorted names of one tissue directory, and
  the outer loop, over the sorted names of the subset directory. The accumulator is the pair
  of lists \<^verbatim>\<open>per_file_dfs\<close> and \<^verbatim>\<open>sample_infos\<close>; an exception of
  \<^verbatim>\<open>_load_single_file\<close> ends both loops.
\<close>

fun load_files ::
  "filesystem \<Rightarrow> string \<Rightarrow> string \<Rightarrow> string \<Rightarrow> string list \<Rightarrow>
   int frame list \<times> VitisSampleInfo list \<Rightarrow> error + (int frame list \<times> VitisSampleInfo list)" where
  "load_files fs tissue_dir tis cond [] acc = Inr acc"
| "load_files fs tissue_dir tis cond (fname # rest) acc =
     (if \<not> endswith (lower fname) ''.txt'' then load_files fs tissue_dir tis cond rest acc
      else
        case load_single_file fs (path_join tissue_dir fname) tis cond of
          Inl e \<Rightarrow> Inl e
        | Inr (df, infos) \<Rightarrow>
            load_files fs tissue_dir tis cond rest (fst acc @ [df], snd acc @ infos))"

fun load_tissues ::
  "filesystem \<Rightarrow> string \<Rightarrow> string \<Rightarrow> string list \<Rightarrow>
   int frame list \<times> VitisSampleInfo list \<Rightarrow> error + (int frame list \<times> VitisSampleInfo list)" where
  "load_tissues fs subset_dir cond [] acc = Inr acc"
| "load_tissues fs subset_dir cond (tis # rest) acc =
     (let tissue_dir = path_join subset_dir tis
      in if \<not> isdir fs tissue_dir then load_tissues fs subset_dir cond rest acc
         else
           case load_files fs tissue_dir tis cond (sort (listdir fs tissue_dir)) acc of
             Inl e \<Rightarrow> Inl e
           | Inr acc' \<Rightarrow> load_tissues fs subset_dir cond rest acc')"

text \<open>Apply a step that may raise to every element, stopping at the first exception.\<close>

fun try_map :: "('a \<Rightarrow> error + 'b) \<Rightarrow> 'a list \<Rightarrow> error + 'b list" where
  "try_map f [] = Inr []"
| "try_map f (x # xs) =
     (case f x of
        Inl e \<Rightarrow> Inl e
      | Inr y \<Rightarrow> (case try_map f xs of Inl e \<Rightarrow> Inl e | Inr ys \<Rightarrow> Inr (y # ys)))"

text \<open>
  The gene reconciliation of \<^verbatim>\<open>_load_all\<close> when \<^verbatim>\<open>intersect_genes\<close> is set:
  \<^verbatim>\<open>common_genes\<close> starts as the index of the first frame and is intersected with
  the index of each later one; the frames are then restricted to the sorted common genes.
\<close>

definition common_genes :: "int frame list \<Rightarrow> string set" where
  "common_genes per_file_dfs =
     fold (\<lambda>df common. common \<inter> set (index df)) (tl per_file_dfs)
          (set (index (hd per_file_dfs)))"

definition restrict_genes :: "int frame list \<Rightarrow> error + int frame list" where
  "restrict_genes per_file_dfs =
     (let common = common_genes per_file_dfs
      in if common = {} then Inl NoCommonGenesError
         else try_map (\<lambda>df. loc df (sorted_list_of_set common)) per_file_dfs)"

text \<open>
  \<^verbatim>\<open>pd.DataFrame([s.__dict__ for s in sample_infos]).set_index("sample_id")\<close>: one row per
  record, in order, indexed by the sample identifier, the other fields as columns in the
  order of the dataclass.
\<close>

definition meta_columns :: "string list" where
  "meta_columns =
     [''original_name'', ''tissue'', ''condition'', ''gse_accession'', ''cultivar'', ''file_path'']"

definition meta_row :: "VitisSampleInfo \<Rightarrow> string \<times> string option list" where
  "meta_row s =
     (sample_id s,
      [Some (original_name s), Some (tissue s), Some (condition s), Some (gse_accession s),
       cultivar s, Some (file_path s)])"

definition meta_frame :: "VitisSampleInfo list \<Rightarrow> string option frame" where
  "meta_frame sample_infos = \<lparr>columns = meta_columns, rows = map meta_row sample_infos\<rparr>"

text \<open>
  The loaded object: the two private tables that \<^verbatim>\<open>_load_all\<close> assigns, and the four
  read-only properties over them.
\<close>

record VitisExpressionData =
  priv_counts :: "int option frame"
  priv_metadata :: "string option frame"

definition counts :: "VitisExpressionData \<Rightarrow> int option frame" where
  "counts self = priv_counts self"



definition samples :: "VitisExpressionData \<Rightarrow> string list" where
  "samples self = columns (counts self)"

text \<open>
  \<^verbatim>\<open>_load_all\<close>, which is all that the constructor does after storing its arguments.
  \<open>subset_name\<close> is the constructor's \<^verbatim>\<open>subset\<close>.
\<close>

definition load_all :: "filesystem \<Rightarrow> string \<Rightarrow> string \<Rightarrow> bool \<Rightarrow> error + VitisExpressionData" where
  "load_all fs data_root subset_name intersect_genes =
     (let vitis_dir = path_join data_root ''vitis_vinifera'';
          subset_dir = path_join vitis_dir subset_name
      in if \<not> isdir fs subset_dir then Inl DirectoryNotFoundError
         else
           case load_tissues fs subset_dir subset_name (sort (listdir fs subset_dir)) ([], []) of
             Inl e \<Rightarrow> Inl e
           | Inr (per_file_dfs, sample_infos) \<Rightarrow>
               if per_file_dfs = [] then Inl EmptyCorpusError
               else
                 case (if intersect_genes then restrict_genes per_file_dfs
                       else Inr per_file_dfs) of
                   Inl e \<Rightarrow> Inl e
                 | Inr per_file_dfs \<Rightarrow>
                     let counts = concat_axis1 per_file_dfs
                     in case loc (meta_frame sample_infos) (columns counts) of
                          Inl e \<Rightarrow> Inl e
                        | Inr meta \<Rightarrow> Inr \<lparr>priv_counts = counts, priv_metadata = meta\<rparr>)"

section \<open>Auxiliary notions for the statements\<close>

text \<open>
  The files that the two loops of \<^verbatim>\<open>_load_all\<close> visit, in the order of the visit: each
  with its tissue and its path. \<open>parse_item\<close> is the call the loops make on one of them.
\<close>

definition txt_files :: "filesystem \<Rightarrow> string \<Rightarrow> string list" where
  "txt_files fs tissue_dir =
     filter (\<lambda>fname. endswith (lower fname) ''.txt'') (sort (listdir fs tissue_dir))"

definition discovered :: "filesystem \<Rightarrow> string \<Rightarrow> (string \<times> string) list" where
  "discovered fs subset_dir =
     concat (map (\<lambda>tis. map (\<lambda>fname. (tis, path_join (path_join subset_dir tis) fname))
                          (txt_files fs (path_join subset_dir tis)))
                 (filter (\<lambda>tis. isdir fs (path_join subset_dir tis))
                         (sort (listdir fs subset_dir))))"

definition parse_item ::
  "filesystem \<Rightarrow> string \<Rightarrow> string \<times> string \<Rightarrow> error + (int frame \<times> VitisSampleInfo list)" where
  "parse_item fs cond item = load_single_file fs (snd item) (fst item) cond"

definition subset_path :: "string \<Rightarrow> string \<Rightarrow> string" where
  "subset_path data_root subset_name = path_join (path_join data_root ''vitis_vinifera'') subset_name"

section \<open>Example inputs\<close>

text \<open>
  A file system with the given subset directory: under it one directory per listed tissue,
  holding the listed files, each with the frame that \<^verbatim>\<open>read_csv\<close> returns for it. The
  directories enumerate their entries in the order of the lists. It serves to write the
  concrete inputs at which statements are evaluated.
\<close>

definition fs_of :: "string \<Rightarrow> (string \<times> (string \<times> raw_frame) list) list \<Rightarrow> filesystem" where
  "fs_of subset_dir tree =
     \<lparr>isdir = (\<lambda>p. p = subset_dir \<or> p \<in> set (map (\<lambda>d. path_join subset_dir (fst d)) tree)),
      listdir = (\<lambda>p. if p = subset_dir then map fst tree
                      else concat (map (\<lambda>d. if p = path_join subset_dir (fst d)
                                             then map fst (snd d) else []) tree)),
      read_csv = map_of (concat (map (\<lambda>d. map (\<lambda>f. (path_join (path_join subset_dir (fst d)) (fst f),
                                                      snd f)) (snd d)) tree))\<rparr>"



text \<open>
  The end-to-end scenario of the specification: tissue leaf with one file of three genes and
  two samples, tissue berry with one file of two of those genes and one sample; the system
  lists leaf before berry, and a stray file beside the tissue directories.
\<close>

definition table_leaf :: raw_frame where
  "table_leaf = \<lparr>raw_columns = [''id'', ''s1'', ''s2''],
                 raw_rows = [(''g3'', [1, 2]), (''g1'', [3, 4]), (''g2'', [5, 6])]\<rparr>"

definition table_berry :: raw_frame where
  "table_berry = \<lparr>raw_columns = [''Gene'', ''b1''],
                  raw_rows = [(''g2'', [7]), (''g1'', [8])]\<rparr>"

definition fs_scenario :: filesystem where
  "fs_scenario = fs_of ''/d/vitis_vinifera/control''
     [(''leaf'', [(''GSE100_control.txt'', table_leaf)]),
      (''berry'', [(''GSE200_control.txt'', table_berry)])]"

text \<open>The same tree, enumerated by the system in another order.\<close>

definition fs_scenario_reordered :: filesystem where
  "fs_scenario_reordered = fs_of ''/d/vitis_vinifera/control''
     [(''berry'', [(''GSE200_control.txt'', table_berry)]),
      (''leaf'', [(''GSE100_control.txt'', table_leaf)])]"

text \<open>A tissue with a good file and a file that has only a gene column.\<close>

definition table_no_samples :: raw_frame where
  "table_no_samples = \<lparr>raw_columns = [''Gene''], raw_rows = [(''g1'', []), (''g2'', [])]\<rparr>"

definition fs_malformed :: filesystem where
  "fs_malformed = fs_of ''/d/vitis_vinifera/control''
     [(''leaf'', [(''GSE100_control.txt'', table_leaf), (''GSE300_control.txt'', table_no_samples)])]"






section \<open>The dataset\<close>

text \<open>
  Indexing a Python list (or a tensor along its first axis) with an integer: a negative
  index counts from the end, and an index out of range raises \<^verbatim>\<open>IndexError\<close>.
\<close>

definition py_index :: "'a list \<Rightarrow> int \<Rightarrow> error + 'a" where
  "py_index xs i =
     (if 0 \<le> i \<and> i < int (length xs) then Inr (xs ! nat i)
      else if i < 0 \<and> - int (length xs) \<le> i then Inr (xs ! nat (int (length xs) + i))
      else Inl IndexError)"

text \<open>The position of the first occurrence of a value in a list that holds it.\<close>

definition index_of :: "'a \<Rightarrow> 'a list \<Rightarrow> nat" where
  "index_of x xs = length (takeWhile (\<lambda>y. y \<noteq> x) xs)"

text \<open>
  \<^verbatim>\<open>df[col]\<close> as a series: the cells of the column, row by row. \<^verbatim>\<open>KeyError\<close> when
  no column has the label; when several have it, pandas returns a frame, and the
  \<^verbatim>\<open>.cat\<close> accessor that the dataset uses next raises. Every row of a frame has one cell
  per column.
\<close>

definition column_values :: "'v frame \<Rightarrow> string \<Rightarrow> error + 'v list" where
  "column_values df col =
     (if col \<notin> set (columns df) then Inl KeyError
      else if 1 < count_list (columns df) col then Inl PandasError
      else Inr (map (\<lambda>r. snd r ! index_of col (columns df)) (rows df)))"

text \<open>
  \<^verbatim>\<open>labels.astype("category")\<close>: the categories are the distinct values that are not
  missing, sorted ascending; the code of a value is its position among the categories, and
  the code of a missing value is -1.
\<close>

definition present :: "'a option list \<Rightarrow> 'a list" where
  "present vs = concat (map (\<lambda>v. case v of None \<Rightarrow> [] | Some s \<Rightarrow> [s]) vs)"

definition cat_categories :: "string option list \<Rightarrow> string list" where
  "cat_categories labels = sort (remdups (present labels))"

definition cat_codes :: "string option list \<Rightarrow> int list" where
  "cat_codes labels =
     map (\<lambda>v. case v of None \<Rightarrow> - 1 | Some s \<Rightarrow> int (index_of s (cat_categories labels))) labels"

text \<open>\<^verbatim>\<open>counts_df.T.values\<close>: one feature vector per column of the matrix.\<close>

definition transposed_values :: "'v frame \<Rightarrow> 'v list list" where
  "transposed_values df = map (\<lambda>j. map (\<lambda>r. snd r ! j) (rows df)) [0..<length (columns df)]"

text \<open>
  The attributes of \<^verbatim>\<open>ExpressionDataset\<close>: \<open>ds_X\<close> is \<^verbatim>\<open>self.X\<close>, \<open>ds_y\<close> is
  \<^verbatim>\<open>self.y\<close>, and so on. A missing cell of the matrix is a NaN of the tensor.
\<close>

record ExpressionDataset =
  ds_X :: "int option list list"
  ds_sample_ids :: "string list"
  ds_metadata :: "string option frame"
  ds_label_col :: string
  ds_label_categories :: "string list"
  ds_y :: "int list"

text \<open>\<^verbatim>\<open>ExpressionDataset.__init__\<close>; the tensor dtype does not enter the model.\<close>

definition ExpressionDataset_init ::
  "int option frame \<Rightarrow> string option frame \<Rightarrow> string \<Rightarrow> error + ExpressionDataset" where
  "ExpressionDataset_init counts_df metadata_df label_col =
     (case loc metadata_df (columns counts_df) of
        Inl e \<Rightarrow> Inl e
      | Inr metadata_df \<Rightarrow>
          let X = transposed_values counts_df
          in case column_values metadata_df label_col of
               Inl e \<Rightarrow> Inl e
             | Inr labels \<Rightarrow>
                 Inr \<lparr>ds_X = X,
                      ds_sample_ids = columns counts_df,
                      ds_metadata = metadata_df,
                      ds_label_col = label_col,
                      ds_label_categories = cat_categories labels,
                      ds_y = cat_codes labels\<rparr>)"

text \<open>\<^verbatim>\<open>__len__\<close>, \<^verbatim>\<open>__getitem__\<close>, \<^verbatim>\<open>label_to_name\<close> and \<^verbatim>\<open>get_sample_metadata\<close>.\<close>

definition dataset_len :: "ExpressionDataset \<Rightarrow> nat" where
  "dataset_len self = length (ds_X self)"

definition getitem :: "ExpressionDataset \<Rightarrow> int \<Rightarrow> error + (int option list \<times> int)" where
  "getitem self idx =
     (case py_index (ds_X self) idx of
        Inl e \<Rightarrow> Inl e
      | Inr x \<Rightarrow> (case py_index (ds_y self) idx of Inl e \<Rightarrow> Inl e | Inr l \<Rightarrow> Inr (x, l)))"


text \<open>
  \<^verbatim>\<open>self.metadata.loc[sample_id]\<close> with one label: the rows that carry it, a single row
  when the index is unique.
\<close>

definition get_sample_metadata :: "ExpressionDataset \<Rightarrow> int \<Rightarrow> error + string option list list" where
  "get_sample_metadata self idx =
     (case py_index (ds_sample_ids self) idx of
        Inl e \<Rightarrow> Inl e
      | Inr sid \<Rightarrow>
          if sid \<notin> set (index (ds_metadata self)) then Inl KeyError
          else Inr (map snd (filter (\<lambda>r. fst r = sid) (rows (ds_metadata self)))))"


text \<open>A metadata table with a repeated index label, and the same rows in the other order.\<close>

definition meta_repeated :: "string option frame" where
  "meta_repeated = \<lparr>columns = [''tissue''],
                    rows = [(''s'', [Some ''leaf'']), (''s'', [Some ''berry''])]\<rparr>"

definition meta_repeated_swapped :: "string option frame" where
  "meta_repeated_swapped = \<lparr>columns = [''tissue''],
                            rows = [(''s'', [Some ''berry'']), (''s'', [Some ''leaf''])]\<rparr>"

definition counts_one :: "int option frame" where
  "counts_one = \<lparr>columns = [''s''], rows = [(''g1'', [Some 1])]\<rparr>"

text \<open>A matrix of two samples with its metadata, and the metadata with a row more, reordered.\<close>

definition counts_two :: "int option frame" where
  "counts_two = \<lparr>columns = [''s1'', ''s2''], rows = [(''g1'', [Some 1, Some 2])]\<rparr>"

definition meta_two :: "string option frame" where
  "meta_two = \<lparr>columns = [''tissue''],
               rows = [(''s1'', [Some ''leaf'']), (''s2'', [Some ''berry''])]\<rparr>"

definition meta_two_extra :: "string option frame" where
  "meta_two_extra = \<lparr>columns = [''tissue''],
                     rows = [(''s3'', [Some ''root'']), (''s2'', [Some ''berry'']),
                             (''s1'', [Some ''leaf''])]\<rparr>"

section \<open>Facts about characters and substrings\<close>

lemma char_of_eq_small:
  fixes a :: nat
  assumes "a < 256"
  shows "c = char_of a \<longleftrightarrow> (of_char c :: nat) = a"
proof
  assume "c = char_of a"
  then have "(of_char c :: nat) = a mod 256" by (simp only: of_char_of)
  with assms show "(of_char c :: nat) = a" by simp
next
  assume "(of_char c :: nat) = a"
  then have "char_of (of_char c :: nat) = (char_of a :: char)" by (rule arg_cong)
  then show "c = char_of a" by (simp only: char_of_char)
qed

lemma upper_char_eq_iff:
  assumes "(of_char l :: nat) \<in> {65..90}"
  shows "upper_char c = l \<longleftrightarrow> c = l \<or> c = lower_char l"
proof -
  define n where "n = (of_char c :: nat)"
  define k where "k = (of_char l :: nat)"
  have k: "65 \<le> k" "k \<le> 90" using assms by (auto simp: k_def)
  have lk: "lower_char l = char_of (k + 32)"
    using k by (simp add: lower_char_def Let_def k_def)
  have cl: "c = l \<longleftrightarrow> n = k" by (simp add: n_def k_def)
  have c1: "c = char_of (k + 32) \<longleftrightarrow> n = k + 32"
    unfolding n_def by (rule char_of_eq_small) (use k in arith)
  show ?thesis
  proof (cases "97 \<le> n \<and> n \<le> 122")
    case True
    then have u: "upper_char c = char_of (n - 32)"
      by (simp add: upper_char_def Let_def n_def)
    have "l = char_of (n - 32) \<longleftrightarrow> k = n - 32"
      unfolding k_def by (rule char_of_eq_small) (use True in arith)
    then have "upper_char c = l \<longleftrightarrow> k = n - 32" using u by auto
    moreover have "k = n - 32 \<longleftrightarrow> n = k + 32" using True by arith
    moreover have "n \<noteq> k" using True k by arith
    ultimately show ?thesis using cl c1 lk by simp
  next
    case False
    then have u: "upper_char c = c" by (auto simp: upper_char_def Let_def n_def)
    have "n \<noteq> k + 32" using False k by arith
    then show ?thesis using u cl c1 lk by simp
  qed
qed

lemma upper_char_G: "upper_char c = CHR ''G'' \<longleftrightarrow> ieq c CHR ''G''"
  unfolding ieq_def by (rule upper_char_eq_iff) simp

lemma upper_char_S: "upper_char c = CHR ''S'' \<longleftrightarrow> ieq c CHR ''S''"
  unfolding ieq_def by (rule upper_char_eq_iff) simp

lemma upper_char_E: "upper_char c = CHR ''E'' \<longleftrightarrow> ieq c CHR ''E''"
  unfolding ieq_def by (rule upper_char_eq_iff) simp



lemma str_contains_iff: "str_contains hay needle \<longleftrightarrow> (\<exists>ps ss. hay = ps @ needle @ ss)"
proof (induction hay)
  case Nil
  then show ?case by auto
next
  case (Cons c cs)
  show ?case
  proof
    assume "str_contains (c # cs) needle"
    then consider "prefix needle (c # cs)" | "str_contains cs needle" by auto
    then show "\<exists>ps ss. c # cs = ps @ needle @ ss"
    proof cases
      case 1
      then obtain zs where "c # cs = needle @ zs" by (auto simp: prefix_def)
      then have "c # cs = [] @ needle @ zs" by simp
      then show ?thesis by blast
    next
      case 2
      with Cons obtain ps ss where "cs = ps @ needle @ ss" by auto
      then have "c # cs = (c # ps) @ needle @ ss" by simp
      then show ?thesis by blast
    qed
  next
    assume "\<exists>ps ss. c # cs = ps @ needle @ ss"
    then obtain ps ss where h: "c # cs = ps @ needle @ ss" by blast
    show "str_contains (c # cs) needle"
    proof (cases ps)
      case Nil
      with h have "prefix needle (c # cs)" by (auto simp: prefix_def)
      then show ?thesis by simp
    next
      case (Cons p ps')
      with h have "cs = ps' @ needle @ ss" by simp
      with Cons.IH have "str_contains cs needle" by blast
      then show ?thesis by simp
    qed
  qed
qed

lemma occurs_ci_iff: "occurs_ci kw fname \<longleftrightarrow> str_contains (lower fname) kw"
proof
  assume "occurs_ci kw fname"
  then obtain ps w ss where "fname = ps @ w @ ss" "lower w = kw"
    by (auto simp: occurs_ci_def)
  then have "lower fname = lower ps @ kw @ lower ss" by (simp add: lower_def)
  then show "str_contains (lower fname) kw" unfolding str_contains_iff by blast
next
  assume "str_contains (lower fname) kw"
  then obtain a c where "map lower_char fname = a @ kw @ c"
    unfolding str_contains_iff lower_def by blast
  then have "\<exists>ps r. fname = ps @ r \<and> a = map lower_char ps \<and> kw @ c = map lower_char r"
    by (simp add: map_eq_append_conv)
  then obtain ps r where r: "fname = ps @ r" "map lower_char r = kw @ c" by auto
  then have "\<exists>w ss. r = w @ ss \<and> kw = map lower_char w \<and> c = map lower_char ss"
    by (simp add: map_eq_append_conv)
  then obtain w ss where "r = w @ ss" "map lower_char w = kw" by auto
  with r show "occurs_ci kw fname" by (auto simp: occurs_ci_def lower_def)
qed

lemma takeWhile_take_all:
  "k \<le> length xs \<and> list_all P (take k xs) \<longleftrightarrow> k \<le> length (takeWhile P xs)"
proof (induction xs arbitrary: k)
  case Nil
  then show ?case by simp
next
  case (Cons a xs)
  then show ?case by (cases k) auto
qed

section \<open>The accession pattern\<close>

lemma gse_token_at_drop: "gse_token_at s i n \<longleftrightarrow> token_here (drop i s) n"
  by (auto simp: gse_token_at_def token_here_def add.commute)

lemma token_here_iff:
  "token_here t n \<longleftrightarrow> (\<exists>m. GSE_REGEX_match t = Some m \<and> 4 \<le> n \<and> n \<le> length m)"
proof (cases t rule: GSE_REGEX_match.cases)
  case (1 g s e rest)
  have "n - 3 \<le> length rest \<and> list_all is_digit (take (n - 3) rest)
        \<longleftrightarrow> n - 3 \<le> length (takeWhile is_digit rest)"
    by (rule takeWhile_take_all)
  then show ?thesis using 1
    by (auto simp: token_here_def upper_def upper_char_G upper_char_S upper_char_E)
qed (auto simp: token_here_def)

lemma GSE_REGEX_match_take: "GSE_REGEX_match t = Some m \<Longrightarrow> m = take (length m) t"
proof (cases t rule: GSE_REGEX_match.cases)
  case (1 g s e rest)
  assume "GSE_REGEX_match t = Some m"
  with 1 have m: "m = g # s # e # takeWhile is_digit rest" by (auto split: if_splits)
  have "takeWhile is_digit rest = take (length (takeWhile is_digit rest)) rest"
    by (metis takeWhile_eq_take)
  with m 1 show ?thesis by simp
qed auto

lemma GSE_REGEX_search_None:
  "GSE_REGEX_search s = None \<longleftrightarrow> (\<forall>i. GSE_REGEX_match (drop i s) = None)"
proof (induction s)
  case Nil
  then show ?case by simp
next
  case (Cons c cs)
  have "(\<forall>i. GSE_REGEX_match (drop i (c # cs)) = None) \<longleftrightarrow>
        GSE_REGEX_match (c # cs) = None \<and> (\<forall>i. GSE_REGEX_match (drop i cs) = None)"
    (is "?L \<longleftrightarrow> ?R")
  proof
    assume l: ?L
    from l have "GSE_REGEX_match (drop 0 (c # cs)) = None" by blast
    moreover have "GSE_REGEX_match (drop i cs) = None" for i
      using l [rule_format, of "Suc i"] by simp
    ultimately show ?R by simp
  next
    assume r: ?R
    show ?L
    proof
      fix i show "GSE_REGEX_match (drop i (c # cs)) = None"
        using r by (cases i) auto
    qed
  qed
  with Cons show ?case by (auto split: option.splits)
qed

lemma GSE_REGEX_search_Some:
  "GSE_REGEX_search s = Some m \<longleftrightarrow>
     (\<exists>i. GSE_REGEX_match (drop i s) = Some m \<and> (\<forall>j<i. GSE_REGEX_match (drop j s) = None))"
proof (induction s)
  case Nil
  then show ?case by simp
next
  case (Cons c cs)
  show ?case
  proof (cases "GSE_REGEX_match (c # cs)")
    case None
    have "(\<exists>i. GSE_REGEX_match (drop i (c # cs)) = Some m \<and>
              (\<forall>j<i. GSE_REGEX_match (drop j (c # cs)) = None)) \<longleftrightarrow>
          (\<exists>i. GSE_REGEX_match (drop i cs) = Some m \<and>
              (\<forall>j<i. GSE_REGEX_match (drop j cs) = None))" (is "?L \<longleftrightarrow> ?R")
    proof
      assume ?L
      then obtain i where i: "GSE_REGEX_match (drop i (c # cs)) = Some m"
        "\<forall>j<i. GSE_REGEX_match (drop j (c # cs)) = None" by blast
      with None obtain i' where i': "i = Suc i'" by (cases i) auto
      have "GSE_REGEX_match (drop j cs) = None" if "j < i'" for j
        using i(2) [rule_format, of "Suc j"] that i' by simp
      with i(1) i' show ?R by auto
    next
      assume ?R
      then obtain i where i: "GSE_REGEX_match (drop i cs) = Some m"
        "\<forall>j<i. GSE_REGEX_match (drop j cs) = None" by blast
      have "GSE_REGEX_match (drop j (c # cs)) = None" if "j < Suc i" for j
        using that i(2) None by (cases j) auto
      moreover have "GSE_REGEX_match (drop (Suc i) (c # cs)) = Some m" using i(1) by simp
      ultimately show ?L by blast
    qed
    with None Cons show ?thesis by simp
  next
    case (Some m')
    have "(\<exists>i. GSE_REGEX_match (drop i (c # cs)) = Some m \<and>
              (\<forall>j<i. GSE_REGEX_match (drop j (c # cs)) = None)) \<longleftrightarrow> m' = m" (is "?L \<longleftrightarrow> _")
    proof
      assume ?L
      then obtain i where i: "GSE_REGEX_match (drop i (c # cs)) = Some m"
        "\<forall>j<i. GSE_REGEX_match (drop j (c # cs)) = None" by blast
      have "i = 0"
      proof (rule ccontr)
        assume "i \<noteq> 0"
        then have "GSE_REGEX_match (drop 0 (c # cs)) = None" using i(2) by blast
        with Some show False by simp
      qed
      with i(1) Some show "m' = m" by simp
    next
      assume "m' = m"
      with Some have "GSE_REGEX_match (drop 0 (c # cs)) = Some m" by simp
      then show ?L by blast
    qed
    with Some show ?thesis by simp
  qed
qed

lemma GSE_REGEX_match_length: "GSE_REGEX_match t = Some m \<Longrightarrow> 4 \<le> length m"
  by (cases t rule: GSE_REGEX_match.cases) (auto split: if_splits simp: Suc_le_eq)

lemma gse_search_leftmost_longest:
  assumes "GSE_REGEX_search s = Some m"
  shows "\<exists>i. gse_token_at s i (length m) \<and> (\<forall>j<i. \<forall>k. \<not> gse_token_at s j k) \<and>
           (\<forall>k>length m. \<not> gse_token_at s i k) \<and> m = take (length m) (drop i s)"
proof -
  from assms obtain i where i: "GSE_REGEX_match (drop i s) = Some m"
    "\<forall>j<i. GSE_REGEX_match (drop j s) = None"
    unfolding GSE_REGEX_search_Some by blast
  have "gse_token_at s i (length m)"
    using i(1) GSE_REGEX_match_length [OF i(1)]
    by (simp add: gse_token_at_drop token_here_iff)
  moreover have "\<forall>j<i. \<forall>k. \<not> gse_token_at s j k"
    using i(2) by (simp add: gse_token_at_drop token_here_iff)
  moreover have "\<forall>k>length m. \<not> gse_token_at s i k"
    using i(1) by (simp add: gse_token_at_drop token_here_iff)
  moreover have "m = take (length m) (drop i s)"
    using i(1) by (rule GSE_REGEX_match_take)
  ultimately show ?thesis by blast
qed

lemma gse_token_search: "gse_token_at s i n \<Longrightarrow> \<exists>m. GSE_REGEX_search s = Some m"
proof -
  assume "gse_token_at s i n"
  then obtain m where "GSE_REGEX_match (drop i s) = Some m"
    by (auto simp: gse_token_at_drop token_here_iff)
  then have "GSE_REGEX_search s \<noteq> None" unfolding GSE_REGEX_search_None by auto
  then show ?thesis by auto
qed

lemma gse_token_upper_head: "gse_token_at s i n \<Longrightarrow> hd (upper (take n (drop i s))) = CHR ''G''"
proof -
  assume a: "gse_token_at s i n"
  then have n: "4 \<le> n" and u: "upper (take 3 (drop i s)) = ''GSE''"
    by (auto simp: gse_token_at_def)
  from n have "take 3 (take n (drop i s)) = take 3 (drop i s)" by (simp add: min_def)
  then have "take 3 (upper (take n (drop i s))) = ''GSE''"
    using u by (simp add: upper_def take_map)
  then show ?thesis by (cases "upper (take n (drop i s))") auto
qed

text \<open>
  C8. The accession parser returns the upper-cased leftmost match of the case-insensitive
  pattern "GSE" followed by one or more digits (the longest such match at that position),
  and the sentinel "UNKNOWN" exactly when the filename has no match. It is a total function,
  so it never fails. The three filenames of the specification are evaluated.
\<close>

theorem parse_gse_first_match:
  "((\<exists>i n. gse_token_at fname i n) \<longrightarrow>
      (\<exists>i n. gse_token_at fname i n \<and> (\<forall>j<i. \<forall>k. \<not> gse_token_at fname j k) \<and>
             (\<forall>k>n. \<not> gse_token_at fname i k) \<and>
             parse_gse_from_filename fname = upper (take n (drop i fname)))) \<and>
   (parse_gse_from_filename fname = ''UNKNOWN'' \<longleftrightarrow> \<not> (\<exists>i n. gse_token_at fname i n)) \<and>
   parse_gse_from_filename ''GSE97900_control.txt'' = ''GSE97900'' \<and>
   parse_gse_from_filename ''gse12_x.txt'' = ''GSE12'' \<and>
   parse_gse_from_filename ''no_accession_here.txt'' = ''UNKNOWN''"
proof -
  have a: "\<exists>i n. gse_token_at fname i n \<and> (\<forall>j<i. \<forall>k. \<not> gse_token_at fname j k) \<and>
             (\<forall>k>n. \<not> gse_token_at fname i k) \<and>
             parse_gse_from_filename fname = upper (take n (drop i fname))"
    if "\<exists>i n. gse_token_at fname i n"
  proof -
    from that obtain m where m: "GSE_REGEX_search fname = Some m"
      using gse_token_search by blast
    from gse_search_leftmost_longest [OF m] obtain i where
      i: "gse_token_at fname i (length m)" "\<forall>j<i. \<forall>k. \<not> gse_token_at fname j k"
         "\<forall>k>length m. \<not> gse_token_at fname i k" "m = take (length m) (drop i fname)"
      by blast
    have "parse_gse_from_filename fname = upper (take (length m) (drop i fname))"
      using m i(4) by (simp add: parse_gse_from_filename_def)
    with i show ?thesis by blast
  qed
  have b: "parse_gse_from_filename fname = ''UNKNOWN'' \<longleftrightarrow> \<not> (\<exists>i n. gse_token_at fname i n)"
  proof
    assume u: "parse_gse_from_filename fname = ''UNKNOWN''"
    show "\<not> (\<exists>i n. gse_token_at fname i n)"
    proof
      assume "\<exists>i n. gse_token_at fname i n"
      from a [OF this] obtain i n where "gse_token_at fname i n"
        "parse_gse_from_filename fname = upper (take n (drop i fname))" by blast
      with u gse_token_upper_head [of fname i n] show False by simp
    qed
  next
    assume n: "\<not> (\<exists>i n. gse_token_at fname i n)"
    have "GSE_REGEX_search fname = None"
    proof (rule ccontr)
      assume "GSE_REGEX_search fname \<noteq> None"
      then obtain m where "GSE_REGEX_search fname = Some m" by auto
      from gse_search_leftmost_longest [OF this] n show False by blast
    qed
    then show "parse_gse_from_filename fname = ''UNKNOWN''"
      by (simp add: parse_gse_from_filename_def)
  qed
  have c: "parse_gse_from_filename ''GSE97900_control.txt'' = ''GSE97900''" by code_simp
  have d: "parse_gse_from_filename ''gse12_x.txt'' = ''GSE12''" by code_simp
  have e: "parse_gse_from_filename ''no_accession_here.txt'' = ''UNKNOWN''" by code_simp
  from a b c d e show ?thesis by blast
qed

theorem parse_gse_first_match_witness:
  "gse_token_at ''gse12_x.txt'' 0 5 \<and>
   (\<exists>i n. gse_token_at ''gse12_x.txt'' i n \<and> (\<forall>j<i. \<forall>k. \<not> gse_token_at ''gse12_x.txt'' j k) \<and>
          (\<forall>k>n. \<not> gse_token_at ''gse12_x.txt'' i k) \<and>
          parse_gse_from_filename ''gse12_x.txt'' = upper (take n (drop i ''gse12_x.txt''))) \<and>
   parse_gse_from_filename ''gse12_x.txt'' \<noteq> ''UNKNOWN''"
proof -
  have h: "gse_token_at ''gse12_x.txt'' 0 5" by code_simp
  then have "\<exists>i n. gse_token_at ''gse12_x.txt'' i n" by blast
  with parse_gse_first_match [of "''gse12_x.txt''"] h show ?thesis by blast
qed

text \<open>
  C9. The cultivar parser searches the lower-cased filename for the keywords "mueller" and
  "regent", in that order, and returns the first that occurs; it returns nothing exactly when
  neither occurs. It is a total function, so it never fails. The two filenames of the
  specification are evaluated, and one that holds both keywords.
\<close>

theorem parse_cultivar_priority:
  "parse_cultivar_from_filename fname =
     (if occurs_ci ''mueller'' fname then Some ''mueller''
      else if occurs_ci ''regent'' fname then Some ''regent'' else None) \<and>
   (parse_cultivar_from_filename fname = None \<longleftrightarrow>
      \<not> occurs_ci ''mueller'' fname \<and> \<not> occurs_ci ''regent'' fname) \<and>
   parse_cultivar_from_filename ''GSE12345_leaf_regent.txt'' = Some ''regent'' \<and>
   parse_cultivar_from_filename ''GSE97900_control.txt'' = None \<and>
   parse_cultivar_from_filename ''Regent_x_MUELLER.txt'' = Some ''mueller''"
proof -
  have a: "parse_cultivar_from_filename fname =
     (if occurs_ci ''mueller'' fname then Some ''mueller''
      else if occurs_ci ''regent'' fname then Some ''regent'' else None)"
    by (simp add: parse_cultivar_from_filename_def Let_def occurs_ci_iff)
  have b: "parse_cultivar_from_filename ''GSE12345_leaf_regent.txt'' = Some ''regent''"
    by code_simp
  have c: "parse_cultivar_from_filename ''GSE97900_control.txt'' = None" by code_simp
  have d: "parse_cultivar_from_filename ''Regent_x_MUELLER.txt'' = Some ''mueller''" by code_simp
  from a b c d show ?thesis by simp
qed

theorem parse_cultivar_priority_witness:
  "occurs_ci ''regent'' ''a_REGENT.txt'' \<and> \<not> occurs_ci ''mueller'' ''a_REGENT.txt'' \<and>
   parse_cultivar_from_filename ''a_REGENT.txt'' = Some ''regent''"
proof -
  have r: "occurs_ci ''regent'' ''a_REGENT.txt''" unfolding occurs_ci_iff by code_simp
  have m: "\<not> occurs_ci ''mueller'' ''a_REGENT.txt''" unfolding occurs_ci_iff by code_simp
  from parse_cultivar_priority [of "''a_REGENT.txt''"] r m show ?thesis by simp
qed

section \<open>Stopping at the first exception\<close>

lemma try_map_append:
  "try_map f (xs @ ys) =
     (case try_map f xs of
        Inl e \<Rightarrow> Inl e
      | Inr a \<Rightarrow> (case try_map f ys of Inl e \<Rightarrow> Inl e | Inr b \<Rightarrow> Inr (a @ b)))"
  by (induction xs) (auto split: sum.splits)

lemma try_map_Inr_iff:
  "try_map f xs = Inr ys \<longleftrightarrow> map f xs = map Inr ys"
proof (induction xs arbitrary: ys)
  case Nil
  then show ?case by auto
next
  case (Cons x xs)
  show ?case
  proof (cases "f x")
    case (Inl e)
    then show ?thesis by (cases ys) auto
  next
    case (Inr y)
    show ?thesis
    proof (cases "try_map f xs")
      case (Inl e)
      with Cons.IH have "\<And>zs. map f xs \<noteq> map Inr zs" by (metis sum.distinct(1))
      with Inl Inr show ?thesis by (cases ys) auto
    next
      case r: (Inr zs)
      have m: "map f xs = map Inr zs" using Cons.IH [of zs] r by simp
      have "try_map f (x # xs) = Inr (y # zs)" using Inr r by simp
      moreover have "map f (x # xs) = map Inr ys \<longleftrightarrow> ys = y # zs"
        using Inr m by (cases ys) (auto simp: inj_map_eq_map)
      ultimately show ?thesis by auto
    qed
  qed
qed


lemma try_map_Inr_nth:
  "try_map f xs = Inr ys \<Longrightarrow> i < length xs \<Longrightarrow> f (xs ! i) = Inr (ys ! i)"
  unfolding try_map_Inr_iff by (metis length_map nth_map)

lemma try_map_Inl_iff:
  "try_map f xs = Inl e \<longleftrightarrow>
     (\<exists>i<length xs. f (xs ! i) = Inl e \<and> (\<forall>j<i. \<exists>y. f (xs ! j) = Inr y))"
proof (induction xs)
  case Nil
  then show ?case by simp
next
  case (Cons x xs)
  show ?case
  proof (cases "f x")
    case (Inl e')
    have "(\<exists>i<length (x # xs). f ((x # xs) ! i) = Inl e \<and> (\<forall>j<i. \<exists>y. f ((x # xs) ! j) = Inr y))
          \<longleftrightarrow> e' = e" (is "?L \<longleftrightarrow> _")
    proof
      assume ?L
      then obtain i where i: "f ((x # xs) ! i) = Inl e" "\<forall>j<i. \<exists>y. f ((x # xs) ! j) = Inr y"
        by blast
      have "i = 0"
      proof (rule ccontr)
        assume "i \<noteq> 0"
        then have "\<exists>y. f ((x # xs) ! 0) = Inr y" using i(2) by blast
        with Inl show False by simp
      qed
      with i(1) Inl show "e' = e" by simp
    next
      assume "e' = e"
      with Inl have "f ((x # xs) ! 0) = Inl e" by simp
      then show ?L by auto
    qed
    with Inl show ?thesis by simp
  next
    case (Inr y)
    have "(\<exists>i<length (x # xs). f ((x # xs) ! i) = Inl e \<and> (\<forall>j<i. \<exists>y. f ((x # xs) ! j) = Inr y))
          \<longleftrightarrow> (\<exists>i<length xs. f (xs ! i) = Inl e \<and> (\<forall>j<i. \<exists>y. f (xs ! j) = Inr y))"
      (is "?L \<longleftrightarrow> ?R")
    proof
      assume ?L
      then obtain i where i: "i < length (x # xs)" "f ((x # xs) ! i) = Inl e"
        "\<forall>j<i. \<exists>y. f ((x # xs) ! j) = Inr y" by blast
      with Inr obtain i' where i': "i = Suc i'" by (cases i) auto
      have "\<exists>y. f (xs ! j) = Inr y" if "j < i'" for j
        using i(3) [rule_format, of "Suc j"] that i' by simp
      with i i' show ?R by auto
    next
      assume ?R
      then obtain i where i: "i < length xs" "f (xs ! i) = Inl e"
        "\<forall>j<i. \<exists>y. f (xs ! j) = Inr y" by blast
      have "\<exists>y. f ((x # xs) ! j) = Inr y" if "j < Suc i" for j
        using that i(3) Inr by (cases j) auto
      moreover have "f ((x # xs) ! Suc i) = Inl e" "Suc i < length (x # xs)" using i by auto
      ultimately show ?L by blast
    qed
    with Inr Cons.IH show ?thesis by (auto split: sum.splits)
  qed
qed

section \<open>The loops of the loader\<close>

lemma load_files_try_map:
  "load_files fs tissue_dir tis cond fnames acc =
     (case try_map (parse_item fs cond)
             (map (\<lambda>fname. (tis, path_join tissue_dir fname))
                  (filter (\<lambda>fname. endswith (lower fname) ''.txt'') fnames)) of
        Inl e \<Rightarrow> Inl e
      | Inr rs \<Rightarrow> Inr (fst acc @ map fst rs, snd acc @ concat (map snd rs)))"
proof (induction fnames arbitrary: acc)
  case Nil
  then show ?case by simp
next
  case (Cons fname rest)
  show ?case
  proof (cases "endswith (lower fname) ''.txt''")
    case False
    then show ?thesis using Cons.IH by simp
  next
    case True
    then show ?thesis using Cons.IH
      by (auto simp: parse_item_def split: sum.splits)
  qed
qed

lemma load_tissues_try_map:
  "load_tissues fs subset_dir cond tissues acc =
     (case try_map (parse_item fs cond)
             (concat (map (\<lambda>tis. map (\<lambda>fname. (tis, path_join (path_join subset_dir tis) fname))
                                    (txt_files fs (path_join subset_dir tis)))
                          (filter (\<lambda>tis. isdir fs (path_join subset_dir tis)) tissues))) of
        Inl e \<Rightarrow> Inl e
      | Inr rs \<Rightarrow> Inr (fst acc @ map fst rs, snd acc @ concat (map snd rs)))"
proof (induction tissues arbitrary: acc)
  case Nil
  then show ?case by simp
next
  case (Cons tis rest)
  show ?case
  proof (cases "isdir fs (path_join subset_dir tis)")
    case False
    then show ?thesis using Cons.IH by (simp add: Let_def)
  next
    case True
    then show ?thesis using Cons.IH
      by (auto simp: Let_def load_files_try_map txt_files_def try_map_append split: sum.splits)
  qed
qed

lemma load_tissues_discovered:
  "load_tissues fs subset_dir cond (sort (listdir fs subset_dir)) ([], []) =
     (case try_map (parse_item fs cond) (discovered fs subset_dir) of
        Inl e \<Rightarrow> Inl e
      | Inr rs \<Rightarrow> Inr (map fst rs, concat (map snd rs)))"
  by (simp add: load_tissues_try_map discovered_def split: sum.splits)

section \<open>One file\<close>







lemma map_of_distinct_filter:
  "distinct (map fst rs) \<Longrightarrow> (g, vs) \<in> set rs \<Longrightarrow> filter (\<lambda>r. fst r = g) rs = [(g, vs)]"
proof (induction rs)
  case Nil
  then show ?case by simp
next
  case (Cons r rs)
  show ?case
  proof (cases "fst r = g")
    case True
    with Cons.prems have "r = (g, vs)" by (cases r) (auto simp: rev_image_eqI)
    moreover have "filter (\<lambda>r. fst r = g) rs = []"
      using Cons.prems True by (auto simp: filter_empty_conv rev_image_eqI)
    ultimately show ?thesis by simp
  next
    case False
    with Cons show ?thesis by auto
  qed
qed




lemma load_all_unfold:
  "load_all fs data_root subset_name intersect_genes =
     (if \<not> isdir fs (subset_path data_root subset_name) then Inl DirectoryNotFoundError
      else
        case try_map (parse_item fs subset_name) (discovered fs (subset_path data_root subset_name)) of
          Inl e \<Rightarrow> Inl e
        | Inr rs \<Rightarrow>
            if rs = [] then Inl EmptyCorpusError
            else
              case (if intersect_genes then restrict_genes (map fst rs) else Inr (map fst rs)) of
                Inl e \<Rightarrow> Inl e
              | Inr per_file_dfs \<Rightarrow>
                  (case loc (meta_frame (concat (map snd rs))) (columns (concat_axis1 per_file_dfs)) of
                     Inl e \<Rightarrow> Inl e
                   | Inr meta \<Rightarrow>
                       Inr \<lparr>priv_counts = concat_axis1 per_file_dfs, priv_metadata = meta\<rparr>))"
  unfolding load_all_def Let_def subset_path_def [symmetric] load_tissues_discovered
  by (simp split: sum.splits)



text \<open>
  C7. Parsing a file fails with \<open>MalformedInputError\<close> exactly when \<^verbatim>\<open>read_csv\<close>
  returned a table with fewer than two columns. When a discovered file has such a table the
  construction returns an error and no loaded object; the error is \<open>MalformedInputError\<close>
  when the subset directory exists and the files visited before it parsed.
\<close>

theorem malformed_aborts:
  "(load_single_file fs fpath tis cond = Inl MalformedInputError \<longleftrightarrow>
      (\<exists>t. read_csv fs fpath = Some t \<and> length (raw_columns t) < 2)) \<and>
   (i < length (discovered fs (subset_path data_root subset_name)) \<and>
    read_csv fs (snd (discovered fs (subset_path data_root subset_name) ! i)) = Some t \<and>
    length (raw_columns t) < 2 \<longrightarrow>
      (\<exists>e. load_all fs data_root subset_name intersect_genes = Inl e) \<and>
      (isdir fs (subset_path data_root subset_name) \<and>
       (\<forall>j<i. \<exists>r. parse_item fs subset_name
                     (discovered fs (subset_path data_root subset_name) ! j) = Inr r) \<longrightarrow>
         load_all fs data_root subset_name intersect_genes = Inl MalformedInputError))"
proof -
  let ?ds = "discovered fs (subset_path data_root subset_name)"
  have iff: "load_single_file fs fpath tis cond = Inl MalformedInputError \<longleftrightarrow>
      (\<exists>t. read_csv fs fpath = Some t \<and> length (raw_columns t) < 2)" for fpath tis cond
    by (auto simp: load_single_file_def Let_def split: option.splits)
  have ab: "(\<exists>e. load_all fs data_root subset_name intersect_genes = Inl e) \<and>
      (isdir fs (subset_path data_root subset_name) \<and>
       (\<forall>j<i. \<exists>r. parse_item fs subset_name (?ds ! j) = Inr r) \<longrightarrow>
         load_all fs data_root subset_name intersect_genes = Inl MalformedInputError)"
    if i: "i < length ?ds" and rd: "read_csv fs (snd (?ds ! i)) = Some t"
      and len: "length (raw_columns t) < 2"
  proof -
    have bad: "parse_item fs subset_name (?ds ! i) = Inl MalformedInputError"
      unfolding parse_item_def iff using rd len by blast
    have "\<exists>e. try_map (parse_item fs subset_name) ?ds = Inl e"
    proof (cases "try_map (parse_item fs subset_name) ?ds")
      case (Inl e)
      then show ?thesis by blast
    next
      case (Inr rs)
      from try_map_Inr_nth [OF this i] bad show ?thesis by simp
    qed
    then have 1: "\<exists>e. load_all fs data_root subset_name intersect_genes = Inl e"
      unfolding load_all_unfold by auto
    have 2: "load_all fs data_root subset_name intersect_genes = Inl MalformedInputError"
      if d: "isdir fs (subset_path data_root subset_name)"
        and ok: "\<forall>j<i. \<exists>r. parse_item fs subset_name (?ds ! j) = Inr r"
    proof -
      have "try_map (parse_item fs subset_name) ?ds = Inl MalformedInputError"
        unfolding try_map_Inl_iff using i bad ok by blast
      with d show ?thesis unfolding load_all_unfold by simp
    qed
    from 1 2 show ?thesis by blast
  qed
  from iff ab show ?thesis by blast
qed

theorem malformed_aborts_witness:
  "1 < length (discovered fs_malformed (subset_path ''/d'' ''control'')) \<and>
   read_csv fs_malformed (snd (discovered fs_malformed (subset_path ''/d'' ''control'') ! 1))
     = Some table_no_samples \<and>
   length (raw_columns table_no_samples) < 2 \<and>
   isdir fs_malformed (subset_path ''/d'' ''control'') \<and>
   (case parse_item fs_malformed ''control''
           (discovered fs_malformed (subset_path ''/d'' ''control'') ! 0) of
      Inl e \<Rightarrow> False | Inr r \<Rightarrow> True) \<and>
   load_all fs_malformed ''/d'' ''control'' True = Inl MalformedInputError"
proof -
  have a: "1 < length (discovered fs_malformed (subset_path ''/d'' ''control''))" by code_simp
  have b: "read_csv fs_malformed (snd (discovered fs_malformed (subset_path ''/d'' ''control'') ! 1))
     = Some table_no_samples" by code_simp
  have c: "length (raw_columns table_no_samples) < 2" by code_simp
  have d: "isdir fs_malformed (subset_path ''/d'' ''control'')" by code_simp
  have e0: "case parse_item fs_malformed ''control''
                 (discovered fs_malformed (subset_path ''/d'' ''control'') ! 0) of
          Inl e \<Rightarrow> False | Inr r \<Rightarrow> True" by code_simp
  then have e: "\<forall>j<1. \<exists>r. parse_item fs_malformed ''control''
                 (discovered fs_malformed (subset_path ''/d'' ''control'') ! j) = Inr r"
    by (auto split: sum.splits)
  from malformed_aborts [where fs = fs_malformed and i = 1 and data_root = "''/d''"
      and subset_name = "''control''" and t = table_no_samples and intersect_genes = True]
    a b c d e e0
  show ?thesis by blast
qed

section \<open>Selecting rows by label\<close>

lemma loc_Inr_iff:
  "loc df labels = Inr df' \<longleftrightarrow>
     set labels \<subseteq> set (index df) \<and>
     df' = df\<lparr>rows := concat (map (\<lambda>l. filter (\<lambda>r. fst r = l) (rows df)) labels)\<rparr>"
  by (auto simp: loc_def list_ex_iff)

lemma loc_Inl_iff: "loc df labels = Inl e \<longleftrightarrow> e = KeyError \<and> \<not> set labels \<subseteq> set (index df)"
  by (auto simp: loc_def list_ex_iff)

lemma loc_columns: "loc df labels = Inr df' \<Longrightarrow> columns df' = columns df"
  by (simp add: loc_Inr_iff)

lemma filter_fst_distinct:
  "distinct (map fst rs) \<Longrightarrow> l \<in> fst ` set rs \<Longrightarrow>
   filter (\<lambda>r. fst r = l) rs = [(l, the (map_of rs l))]"
proof -
  assume d: "distinct (map fst rs)" and "l \<in> fst ` set rs"
  then obtain v where v: "(l, v) \<in> set rs" by auto
  with d have "map_of rs l = Some v" by simp
  with map_of_distinct_filter [OF d v] show ?thesis by simp
qed

lemma select_rows_distinct:
  "distinct (map fst rs) \<Longrightarrow> set labels \<subseteq> fst ` set rs \<Longrightarrow>
   concat (map (\<lambda>l. filter (\<lambda>r. fst r = l) rs) labels) = map (\<lambda>l. (l, the (map_of rs l))) labels"
  by (induction labels) (auto simp: filter_fst_distinct)


lemma select_rows_set:
  "set labels \<subseteq> fst ` set rs \<Longrightarrow>
   fst ` set (concat (map (\<lambda>l. filter (\<lambda>r. fst r = l) rs) labels)) = set labels"
proof -
  assume sub: "set labels \<subseteq> fst ` set rs"
  have "set (concat (map (\<lambda>l. filter (\<lambda>r. fst r = l) rs) labels))
        = {r \<in> set rs. fst r \<in> set labels}" by auto
  with sub show ?thesis by force
qed



section \<open>The union of indexes\<close>


lemma distinct_unique_first [simp]: "distinct (unique_first xs)"
  by (induction xs) auto








section \<open>The common genes\<close>








section \<open>The loaded tables\<close>









section \<open>Alignment of the two tables\<close>




section \<open>Gene reconciliation\<close>





section \<open>Independence of the enumeration order\<close>

lemma sort_mset_eq:
  fixes xs ys :: "string list"
  shows "mset xs = mset ys \<Longrightarrow> sort xs = sort ys"
proof -
  assume "mset xs = mset ys"
  then have "mset (sort ys) = mset xs" by simp
  then show ?thesis using sorted_sort [of ys] by (rule properties_for_sort)
qed

lemma load_single_file_cong:
  "read_csv fs1 = read_csv fs2 \<Longrightarrow>
   load_single_file fs1 fpath tis cond = load_single_file fs2 fpath tis cond"
  by (simp add: load_single_file_def)

lemma discovered_cong:
  assumes "isdir fs1 = isdir fs2" "\<forall>p. mset (listdir fs1 p) = mset (listdir fs2 p)"
  shows "discovered fs1 sd = discovered fs2 sd"
proof -
  have s: "sort (listdir fs1 p) = sort (listdir fs2 p)" for p
    by (rule sort_mset_eq) (simp add: assms(2))
  show ?thesis by (simp only: discovered_def txt_files_def s assms(1))
qed

lemma parse_item_cong:
  "read_csv fs1 = read_csv fs2 \<Longrightarrow> parse_item fs1 cond = parse_item fs2 cond"
proof
  fix item assume "read_csv fs1 = read_csv fs2"
  then show "parse_item fs1 cond item = parse_item fs2 cond item"
    unfolding parse_item_def by (rule load_single_file_cong)
qed

text \<open>
  C6. The result of the construction, loaded tables or error, depends on the file system
  only through which paths are directories, what \<^verbatim>\<open>read_csv\<close> returns for each path, and
  which names each directory holds, not on the order in which \<^verbatim>\<open>os.listdir\<close>
  enumerates them: two file systems that agree on the first two and list, for every
  directory, the same names in any order give the same result for the same root, subset
  and intersection flag.
\<close>

theorem load_deterministic:
  "isdir fs1 = isdir fs2 \<and> read_csv fs1 = read_csv fs2 \<and>
   (\<forall>p. mset (listdir fs1 p) = mset (listdir fs2 p)) \<longrightarrow>
     load_all fs1 data_root subset_name intersect_genes
       = load_all fs2 data_root subset_name intersect_genes"
proof
  assume h: "isdir fs1 = isdir fs2 \<and> read_csv fs1 = read_csv fs2 \<and>
   (\<forall>p. mset (listdir fs1 p) = mset (listdir fs2 p))"
  then have i: "isdir fs1 = isdir fs2" and r: "read_csv fs1 = read_csv fs2"
    and l: "\<forall>p. mset (listdir fs1 p) = mset (listdir fs2 p)" by simp_all
  have d: "discovered fs1 (subset_path data_root subset_name)
             = discovered fs2 (subset_path data_root subset_name)"
    using i l by (rule discovered_cong)
  have p: "parse_item fs1 subset_name = parse_item fs2 subset_name"
    using r by (rule parse_item_cong)
  show "load_all fs1 data_root subset_name intersect_genes
       = load_all fs2 data_root subset_name intersect_genes"
    by (simp only: load_all_unfold d p i)
qed

theorem load_deterministic_witness:
  "isdir fs_scenario = isdir fs_scenario_reordered \<and>
   read_csv fs_scenario = read_csv fs_scenario_reordered \<and>
   listdir fs_scenario ''/d/vitis_vinifera/control'' = [''leaf'', ''berry''] \<and>
   listdir fs_scenario_reordered ''/d/vitis_vinifera/control'' = [''berry'', ''leaf''] \<and>
   load_all fs_scenario ''/d'' ''control'' True = load_all fs_scenario_reordered ''/d'' ''control'' True \<and>
   map_sum id samples (load_all fs_scenario ''/d'' ''control'' True)
     = Inr [''berry|GSE200|b1'', ''leaf|GSE100|s1'', ''leaf|GSE100|s2'']"
proof -
  have a: "isdir fs_scenario = isdir fs_scenario_reordered"
    by (auto simp: fs_scenario_def fs_scenario_reordered_def fs_of_def fun_eq_iff)
  have b: "read_csv fs_scenario = read_csv fs_scenario_reordered"
    by (auto simp: fs_scenario_def fs_scenario_reordered_def fs_of_def fun_eq_iff path_join_def)
  have c: "\<forall>p. mset (listdir fs_scenario p) = mset (listdir fs_scenario_reordered p)"
    by (auto simp: fs_scenario_def fs_scenario_reordered_def fs_of_def path_join_def)
  have d: "listdir fs_scenario ''/d/vitis_vinifera/control'' = [''leaf'', ''berry'']" by code_simp
  have e: "listdir fs_scenario_reordered ''/d/vitis_vinifera/control'' = [''berry'', ''leaf'']"
    by code_simp
  have f: "map_sum id samples (load_all fs_scenario ''/d'' ''control'' True)
     = Inr [''berry|GSE200|b1'', ''leaf|GSE100|s1'', ''leaf|GSE100|s2'']" by code_simp
  have g: "load_all fs_scenario ''/d'' ''control'' True
             = load_all fs_scenario_reordered ''/d'' ''control'' True"
    using load_deterministic [where ?fs1.0 = fs_scenario and ?fs2.0 = fs_scenario_reordered
      and data_root = "''/d''" and subset_name = "''control''" and intersect_genes = True]
      a b c by blast
  from a b d e f g show ?thesis by (intro conjI)
qed


section \<open>Sample identifiers\<close>













section \<open>Categories and codes\<close>















section \<open>Re-selection of the metadata rows\<close>

lemma loc_distinct_rows:
  assumes "distinct (index df)" "set labels \<subseteq> set (index df)"
  shows "loc df labels = Inr (df\<lparr>rows := map (\<lambda>l. (l, the (map_of (rows df) l))) labels\<rparr>)"
proof -
  have d: "distinct (map fst (rows df))" using assms(1) by (simp add: index_def)
  have s: "set labels \<subseteq> fst ` set (rows df)" using assms(2) by (simp add: index_def)
  have r: "concat (map (\<lambda>l. filter (\<lambda>r. fst r = l) (rows df)) labels)
          = map (\<lambda>l. (l, the (map_of (rows df) l))) labels"
    using d s by (rule select_rows_distinct)
  show ?thesis unfolding loc_Inr_iff r using assms(2) by simp
qed

lemma map_of_filtered:
  assumes "distinct (map fst rs)" "distinct (map fst rs')" "c \<in> S"
    and "mset (filter (\<lambda>r. fst r \<in> S) rs) = mset (filter (\<lambda>r. fst r \<in> S) rs')"
  shows "map_of rs c = map_of rs' c"
proof -
  have s: "set (filter (\<lambda>r. fst r \<in> S) rs) = set (filter (\<lambda>r. fst r \<in> S) rs')"
    using assms(4) by (rule mset_eq_setD)
  have m: "(c, v) \<in> set rs \<longleftrightarrow> (c, v) \<in> set rs'" for v
  proof -
    have "(c, v) \<in> set rs \<longleftrightarrow> (c, v) \<in> set (filter (\<lambda>r. fst r \<in> S) rs)"
      using assms(3) by simp
    also have "\<dots> \<longleftrightarrow> (c, v) \<in> set (filter (\<lambda>r. fst r \<in> S) rs')" by (simp only: s)
    also have "\<dots> \<longleftrightarrow> (c, v) \<in> set rs'" using assms(3) by simp
    finally show ?thesis .
  qed
  have 1: "map_of rs c = Some v \<longleftrightarrow> (c, v) \<in> set rs" for v
    using assms(1) by (rule map_of_eq_Some_iff)
  have 2: "map_of rs' c = Some v \<longleftrightarrow> (c, v) \<in> set rs'" for v
    using assms(2) by (rule map_of_eq_Some_iff)
  show ?thesis
  proof (cases "map_of rs c")
    case None
    have "map_of rs' c = None"
    proof (rule ccontr)
      assume "map_of rs' c \<noteq> None"
      then obtain v where "map_of rs' c = Some v" by blast
      then have "map_of rs c = Some v" unfolding 1 2 m .
      with None show False by simp
    qed
    with None show ?thesis by simp
  next
    case (Some v)
    then have "map_of rs' c = Some v" unfolding 1 2 m .
    with Some show ?thesis by simp
  qed
qed

text \<open>
  C10, as amended. Take two metadata tables with the same columns whose index labels are
  pairwise distinct and include every column of the counts matrix, and whose rows for the
  samples of the matrix are the same up to order (either table may hold further rows for
  other samples). Then the constructor returns the same dataset for both: the same
  features, labels, categories and metadata. The metadata of the dataset has one row per
  column of the matrix, in the order of the columns.
\<close>

theorem dataset_metadata_reselected:
  "distinct (index m1) \<and> distinct (index m2) \<and> columns m1 = columns m2 \<and>
   set (columns counts_df) \<subseteq> set (index m1) \<and> set (columns counts_df) \<subseteq> set (index m2) \<and>
   mset (filter (\<lambda>r. fst r \<in> set (columns counts_df)) (rows m1))
     = mset (filter (\<lambda>r. fst r \<in> set (columns counts_df)) (rows m2)) \<longrightarrow>
     ExpressionDataset_init counts_df m1 label_col = ExpressionDataset_init counts_df m2 label_col \<and>
     (\<forall>d. ExpressionDataset_init counts_df m1 label_col = Inr d \<longrightarrow>
          ds_sample_ids d = columns counts_df \<and>
          index (ds_metadata d) = columns counts_df \<and>
          rows (ds_metadata d) = map (\<lambda>c. (c, the (map_of (rows m1) c))) (columns counts_df))"
proof
  let ?cols = "columns counts_df"
  assume h: "distinct (index m1) \<and> distinct (index m2) \<and> columns m1 = columns m2 \<and>
   set ?cols \<subseteq> set (index m1) \<and> set ?cols \<subseteq> set (index m2) \<and>
   mset (filter (\<lambda>r. fst r \<in> set ?cols) (rows m1))
     = mset (filter (\<lambda>r. fst r \<in> set ?cols) (rows m2))"
  then have d1: "distinct (index m1)" and d2: "distinct (index m2)"
    and c: "columns m1 = columns m2"
    and s1: "set ?cols \<subseteq> set (index m1)" and s2: "set ?cols \<subseteq> set (index m2)"
    and p: "mset (filter (\<lambda>r. fst r \<in> set ?cols) (rows m1))
              = mset (filter (\<lambda>r. fst r \<in> set ?cols) (rows m2))"
    by blast+
  have l1: "loc m1 ?cols = Inr (m1\<lparr>rows := map (\<lambda>l. (l, the (map_of (rows m1) l))) ?cols\<rparr>)"
    using d1 s1 by (rule loc_distinct_rows)
  have l2: "loc m2 ?cols = Inr (m2\<lparr>rows := map (\<lambda>l. (l, the (map_of (rows m2) l))) ?cols\<rparr>)"
    using d2 s2 by (rule loc_distinct_rows)
  have "map (\<lambda>l. (l, the (map_of (rows m1) l))) ?cols = map (\<lambda>l. (l, the (map_of (rows m2) l))) ?cols"
  proof (rule map_cong [OF refl])
    fix l assume "l \<in> set ?cols"
    with d1 d2 p have "map_of (rows m1) l = map_of (rows m2) l"
      unfolding index_def by (intro map_of_filtered [where S = "set ?cols"]) simp_all
    then show "(l, the (map_of (rows m1) l)) = (l, the (map_of (rows m2) l))" by simp
  qed
  then have "m1\<lparr>rows := map (\<lambda>l. (l, the (map_of (rows m1) l))) ?cols\<rparr>
           = m2\<lparr>rows := map (\<lambda>l. (l, the (map_of (rows m2) l))) ?cols\<rparr>"
    using c by simp
  with l1 l2 have e: "loc m1 ?cols = loc m2 ?cols" by simp
  have eq: "ExpressionDataset_init counts_df m1 label_col = ExpressionDataset_init counts_df m2 label_col"
    unfolding ExpressionDataset_init_def e ..
  have sel: "ds_sample_ids d = ?cols \<and> index (ds_metadata d) = ?cols \<and>
          rows (ds_metadata d) = map (\<lambda>c. (c, the (map_of (rows m1) c))) ?cols"
    if "ExpressionDataset_init counts_df m1 label_col = Inr d" for d
    using that unfolding ExpressionDataset_init_def l1
    by (auto simp: Let_def index_def comp_def split: sum.splits)
  from eq sel show "ExpressionDataset_init counts_df m1 label_col = ExpressionDataset_init counts_df m2 label_col \<and>
     (\<forall>d. ExpressionDataset_init counts_df m1 label_col = Inr d \<longrightarrow>
          ds_sample_ids d = columns counts_df \<and>
          index (ds_metadata d) = columns counts_df \<and>
          rows (ds_metadata d) = map (\<lambda>c. (c, the (map_of (rows m1) c))) (columns counts_df))"
    by blast
qed

theorem dataset_metadata_reselected_witness:
  "distinct (index meta_two) \<and> distinct (index meta_two_extra) \<and>
   columns meta_two = columns meta_two_extra \<and>
   set (columns counts_two) \<subseteq> set (index meta_two) \<and>
   set (columns counts_two) \<subseteq> set (index meta_two_extra) \<and>
   index meta_two = [''s1'', ''s2''] \<and> index meta_two_extra = [''s3'', ''s2'', ''s1''] \<and>
   ExpressionDataset_init counts_two meta_two ''tissue''
     = ExpressionDataset_init counts_two meta_two_extra ''tissue'' \<and>
   map_sum id (index \<circ> ds_metadata) (ExpressionDataset_init counts_two meta_two_extra ''tissue'')
     = Inr [''s1'', ''s2'']"
proof -
  have a: "distinct (index meta_two)" by code_simp
  have b: "distinct (index meta_two_extra)" by code_simp
  have c: "columns meta_two = columns meta_two_extra" by code_simp
  have d: "set (columns counts_two) \<subseteq> set (index meta_two)" by code_simp
  have e: "set (columns counts_two) \<subseteq> set (index meta_two_extra)" by code_simp
  have f1: "filter (\<lambda>r. fst r \<in> set (columns counts_two)) (rows meta_two)
              = [(''s1'', [Some ''leaf'']), (''s2'', [Some ''berry''])]" by code_simp
  have f2: "filter (\<lambda>r. fst r \<in> set (columns counts_two)) (rows meta_two_extra)
              = [(''s2'', [Some ''berry'']), (''s1'', [Some ''leaf''])]" by code_simp
  have f: "mset (filter (\<lambda>r. fst r \<in> set (columns counts_two)) (rows meta_two))
         = mset (filter (\<lambda>r. fst r \<in> set (columns counts_two)) (rows meta_two_extra))"
    unfolding f1 f2 by (simp add: add_mset_commute)
  have g: "index meta_two = [''s1'', ''s2'']" by code_simp
  have h: "index meta_two_extra = [''s3'', ''s2'', ''s1'']" by code_simp
  have i: "map_sum id (index \<circ> ds_metadata)
             (ExpressionDataset_init counts_two meta_two_extra ''tissue'') = Inr [''s1'', ''s2'']"
    by code_simp
  note t = dataset_metadata_reselected [where ?m1.0 = meta_two and ?m2.0 = meta_two_extra
      and counts_df = counts_two and label_col = "''tissue''"]
  have hyp: "distinct (index meta_two) \<and> distinct (index meta_two_extra) \<and>
     columns meta_two = columns meta_two_extra \<and>
     set (columns counts_two) \<subseteq> set (index meta_two) \<and>
     set (columns counts_two) \<subseteq> set (index meta_two_extra) \<and>
     mset (filter (\<lambda>r. fst r \<in> set (columns counts_two)) (rows meta_two))
       = mset (filter (\<lambda>r. fst r \<in> set (columns counts_two)) (rows meta_two_extra))"
    by (intro conjI a b c d e f)
  have r: "ExpressionDataset_init counts_two meta_two ''tissue''
     = ExpressionDataset_init counts_two meta_two_extra ''tissue''"
    using t [THEN mp, OF hyp] by (rule conjunct1)
  show ?thesis by (intro conjI a b c d e g h r i)
qed

text \<open>
  C10 as stated does not hold: the two tables below have the same rows in different order
  and their index holds the only column of the matrix, but the label is repeated, every row
  that carries it is selected in the order of the table, and the labels of the two datasets
  differ.
\<close>

theorem dataset_permutation_counterexample:
  "mset (rows meta_repeated) = mset (rows meta_repeated_swapped) \<and>
   columns meta_repeated = columns meta_repeated_swapped \<and>
   set (columns counts_one) \<subseteq> set (index meta_repeated) \<and>
   map_sum id ds_y (ExpressionDataset_init counts_one meta_repeated ''tissue'') = Inr [1, 0] \<and>
   map_sum id ds_y (ExpressionDataset_init counts_one meta_repeated_swapped ''tissue'') = Inr [0, 1]"
proof -
  have a: "mset (rows meta_repeated) = mset (rows meta_repeated_swapped)"
    by (simp add: meta_repeated_def meta_repeated_swapped_def add.commute)
  have b: "columns meta_repeated = columns meta_repeated_swapped" by code_simp
  have c: "set (columns counts_one) \<subseteq> set (index meta_repeated)" by code_simp
  have d: "map_sum id ds_y (ExpressionDataset_init counts_one meta_repeated ''tissue'') = Inr [1, 0]"
    by code_simp
  have e: "map_sum id ds_y (ExpressionDataset_init counts_one meta_repeated_swapped ''tissue'')
             = Inr [0, 1]" by code_simp
  from a b c d e show ?thesis by (intro conjI)
qed


end
